theory Spec2Isabelle
  imports
    Complex_Main
    "HOL-Library.AList"
    "HOL-Library.Char_ord"
    "HOL-Library.List_Lexorder"
    "HOL-Library.Product_Lexorder"
    "HOL-Library.Word"
begin

unbundle bit_operations_syntax

section \<open>Mutation records and count dictionaries\<close>

text \<open>
  The notebook \<^verbatim>\<open>notebooks/ms_figs.python.ipynb\<close> defines one analytical function,
  \<^verbatim>\<open>plot_mutation_spectrum(df1, df2, labels, colors, indels, save)\<close>. It reads two
  columns of every row of its two data frames: \<^verbatim>\<open>row['chrom']\<close> and \<^verbatim>\<open>row['mut']\<close>.
\<close>

record row =
  chrom :: string
  mut :: string

text \<open>
  \<^verbatim>\<open>a, b = defaultdict(int), defaultdict(int)\<close>. A counting dictionary is the list of its
  items in the order in which the keys were inserted. The notebook declares the kernel
  \<^verbatim>\<open>python2\<close>, version 2.7.15, whose dictionaries iterate in the order of their hash
  slots, not in insertion order. For the two counting dictionaries the iteration order
  shows only in the order in which \<^verbatim>\<open>enumerate(a)\<close> visits the keys, that is, in the order
  of the tests and of their report lines; the loop below visits the keys in the order of
  the list. Which keys are tested, with which tables, and which entries are inserted do
  not depend on that order. The iteration order of the two dictionaries rebuilt before
  the normalisation decides the order of the bars; it is modelled in the section on
  sorting. Python integers are unbounded.
\<close>

type_synonym counts = "(string \<times> int) list"

text \<open>
  \<^verbatim>\<open>d[k]\<close> on a \<^verbatim>\<open>defaultdict(int)\<close>: a present key is read; a missing key is first
  inserted (at the end) with the value \<^verbatim>\<open>int() = 0\<close>, which is returned. The dictionary
  after the read is the second component.
\<close>

definition dd_getitem :: "counts \<Rightarrow> string \<Rightarrow> int \<times> counts" where
  "dd_getitem d k =
     (case map_of d k of
        Some v \<Rightarrow> (v, d)
      | None \<Rightarrow> (0, d @ [(k, 0)]))"

text \<open>\<^verbatim>\<open>d[k] = v\<close>: a present key keeps its position, a new key goes to the end.\<close>

definition dd_setitem :: "counts \<Rightarrow> string \<Rightarrow> int \<Rightarrow> counts" where
  "dd_setitem d k v = AList.update k v d"

text \<open>\<^verbatim>\<open>d[k] += 1\<close>: a read of \<^verbatim>\<open>d[k]\<close> followed by a store.\<close>

definition dd_incr :: "counts \<Rightarrow> string \<Rightarrow> counts" where
  "dd_incr d k = (case dd_getitem d k of (v, d') \<Rightarrow> dd_setitem d' k (v + 1))"

section \<open>The aggregation loops\<close>

text \<open>
  The body of \<^verbatim>\<open>for i, row in df.iterrows()\<close>:
  \<^verbatim>\<open>
      if row['chrom'] == 'X': continue # only look at autosomes
      if not indels and row['mut'] == 'indel': continue
      a[row['mut']] += 1
  \<close>
\<close>

fun count_row :: "bool \<Rightarrow> counts \<Rightarrow> row \<Rightarrow> counts" where
  "count_row indels a r =
     (if chrom r = ''X'' then a
      else if \<not> indels \<and> mut r = ''indel'' then a
      else dd_incr a (mut r))"

definition count_muts :: "bool \<Rightarrow> row list \<Rightarrow> counts" where
  "count_muts indels df = foldl (count_row indels) [] df"

text \<open>
  The rows that reach the increment, that is, the rows neither \<^verbatim>\<open>continue\<close> skips.
\<close>

definition keep_row :: "bool \<Rightarrow> row \<Rightarrow> bool" where
  "keep_row indels r =
     (if chrom r = ''X'' then False
      else if \<not> indels \<and> mut r = ''indel'' then False
      else True)"

definition autosome_indel_filter :: "bool \<Rightarrow> row list \<Rightarrow> row list" where
  "autosome_indel_filter indels df = filter (keep_row indels) df"

text \<open>\<^verbatim>\<open>sum(d.values())\<close>, also written \<^verbatim>\<open>sum([t[-1] for t in d.items()])\<close>.\<close>

definition sum_values :: "counts \<Rightarrow> int" where
  "sum_values d = sum_list (map snd d)"

section \<open>Floating-point values and errors\<close>

text \<open>
  The p-values and the fractions are NumPy \<^verbatim>\<open>float64\<close> values. A finite value is
  represented by the real number it approximates (rounding is not modelled); the three
  special values that NumPy produces instead of raising are kept apart.
\<close>

datatype npfloat = Fin real | PosInf | NegInf | NaN

text \<open>
  The function has no \<^verbatim>\<open>raise\<close> and no \<^verbatim>\<open>try\<close>; the only exception on its
  computational path is the \<^verbatim>\<open>ValueError\<close> of \<^verbatim>\<open>scipy.stats.chi2_contingency\<close>,
  which propagates to the caller. The library raises it with one of two messages:
  "All values in `observed` must be nonnegative." and "The internally computed table of
  expected frequencies has a zero element at (i, j)." The second call of \<^verbatim>\<open>ax.bar\<close>
  raises a \<^verbatim>\<open>ValueError\<close> too when its positions and heights cannot be broadcast
  ("shape mismatch: objects cannot be broadcast to a single shape").
\<close>

datatype value_error = Negative_observed | Zero_expected_frequency | Shape_mismatch

datatype error = ValueError value_error

text \<open>
  \<^verbatim>\<open>ndarray / float\<close> (\<^verbatim>\<open>numpy.true_divide\<close>) of an integer count by the float of an
  integer total. NumPy does not raise on a zero divisor: it gives \<^verbatim>\<open>nan\<close> for
  \<^verbatim>\<open>0 / 0.0\<close> and a signed infinity otherwise (with a \<^verbatim>\<open>RuntimeWarning\<close>).
\<close>

definition np_true_divide :: "int \<Rightarrow> int \<Rightarrow> npfloat" where
  "np_true_divide v t =
     (if t = 0 then (if v = 0 then NaN else if 0 < v then PosInf else NegInf)
      else Fin (real_of_int v / real_of_int t))"

text \<open>The comparison \<^verbatim>\<open><=\<close> of two floats: false whenever an operand is \<^verbatim>\<open>nan\<close>.\<close>

fun np_le :: "npfloat \<Rightarrow> npfloat \<Rightarrow> bool" where
  "np_le NaN _ = False"
| "np_le _ NaN = False"
| "np_le NegInf _ = True"
| "np_le _ PosInf = True"
| "np_le (Fin x) (Fin y) = (x \<le> y)"
| "np_le _ _ = False"

section \<open>The library calls\<close>

subsection \<open>\<^verbatim>\<open>scipy.stats.chi2_contingency\<close> on a 2 x 2 table\<close>

text \<open>
  The notebook calls \<^verbatim>\<open>ss.chi2_contingency([[a_back, a_fore], [b_back, b_fore]])\<close>, always
  with a literal 2 x 2 table of integers, and keeps the second component of the result
  (the p-value).
\<close>

type_synonym table = "(int \<times> int) \<times> (int \<times> int)"

text \<open>
  The error function by its Maclaurin series, and the survival function of the
  chi-square distribution with one degree of freedom, \<open>erfc (sqrt (x / 2))\<close>.
\<close>

definition erf :: "real \<Rightarrow> real" where
  "erf x = 2 / sqrt pi * (\<Sum>n. (- 1) ^ n * x ^ (2 * n + 1) / (fact n * real (2 * n + 1)))"

definition chi2_sf :: "real \<Rightarrow> real" where
  "chi2_sf x = 1 - erf (sqrt (x / 2))"

text \<open>
  Yates' continuity correction as SciPy applies it for one degree of freedom:
  \<^verbatim>\<open>observed + minimum(0.5, abs(expected - observed)) * sign(expected - observed)\<close>,
  and one term of Pearson's statistic.
\<close>

definition yates :: "real \<Rightarrow> real \<Rightarrow> real" where
  "yates ob ex = ob + min (1 / 2) \<bar>ex - ob\<bar> * sgn (ex - ob)"

definition pearson_term :: "real \<Rightarrow> real \<Rightarrow> real" where
  "pearson_term ob ex = (yates ob ex - ex) ^ 2 / ex"

text \<open>
  Modelled from the spec: \<^verbatim>\<open>scipy.stats.chi2_contingency\<close> is a library function, no
  part of the repository; the specification calls it "a chi-square test of independence
  on this table, producing one p-value" and leaves its behaviour on degenerate tables
  open. The definition is \<^verbatim>\<open>chi2_contingency(observed)\<close> with its defaults
  (\<^verbatim>\<open>correction=True\<close>), following the library's steps: a negative entry raises
  \<^verbatim>\<open>ValueError\<close>; the expected frequencies are \<open>row total * column total / total\<close>;
  an expected frequency equal to zero raises \<^verbatim>\<open>ValueError\<close>; otherwise the p-value is
  the survival function at the corrected statistic. A table whose total is zero has
  \<^verbatim>\<open>nan\<close> expected frequencies (\<^verbatim>\<open>0 / 0\<close>), none of which equals zero, and its p-value
  is \<^verbatim>\<open>nan\<close>.
\<close>

definition chi2_contingency :: "table \<Rightarrow> error + npfloat" where
  "chi2_contingency obs =
     (case obs of ((o11, o12), (o21, o22)) \<Rightarrow>
        if o11 < 0 \<or> o12 < 0 \<or> o21 < 0 \<or> o22 < 0
        then Inl (ValueError Negative_observed)
        else
          let r1 = o11 + o12; r2 = o21 + o22;
              c1 = o11 + o21; c2 = o12 + o22;
              n = r1 + r2
          in if n = 0 then Inr NaN
             else
               let e11 = real_of_int (r1 * c1) / real_of_int n;
                   e12 = real_of_int (r1 * c2) / real_of_int n;
                   e21 = real_of_int (r2 * c1) / real_of_int n;
                   e22 = real_of_int (r2 * c2) / real_of_int n
               in if e11 = 0 \<or> e12 = 0 \<or> e21 = 0 \<or> e22 = 0
                  then Inl (ValueError Zero_expected_frequency)
                  else Inr (Fin (chi2_sf
                    (pearson_term (real_of_int o11) e11 + pearson_term (real_of_int o12) e12
                     + pearson_term (real_of_int o21) e21 + pearson_term (real_of_int o22) e22))))"

subsection \<open>\<^verbatim>\<open>statsmodels.stats.multitest.fdrcorrection\<close>\<close>

text \<open>
  The steps of the library function are defined first. \<^verbatim>\<open>np.argsort\<close> orders
  \<^verbatim>\<open>-inf\<close>, the finite values, \<^verbatim>\<open>inf\<close>, and \<^verbatim>\<open>nan\<close> last. Equal p-values receive
  equal flags, so the order among ties does not show in the result.
\<close>

fun sort_rank :: "npfloat \<Rightarrow> nat \<times> real" where
  "sort_rank NegInf = (0, 0)"
| "sort_rank (Fin x) = (1, x)"
| "sort_rank PosInf = (2, 0)"
| "sort_rank NaN = (3, 0)"

definition argsort :: "npfloat list \<Rightarrow> nat list" where
  "argsort pvals = sort_key (\<lambda>i. sort_rank (pvals ! i)) [0..<length pvals]"

text \<open>\<^verbatim>\<open>_ecdf(x) = np.arange(1, nobs + 1) / float(nobs)\<close>.\<close>

definition ecdf :: "nat \<Rightarrow> real list" where
  "ecdf nobs = map (\<lambda>i. real i / real nobs) [1..<nobs + 1]"

text \<open>\<^verbatim>\<open>reject_ = np.empty_like(reject); reject_[pvals_sortind] = reject\<close>.\<close>

definition scatter :: "nat list \<Rightarrow> bool list \<Rightarrow> bool list" where
  "scatter ind vals =
     fold (\<lambda>(j, i) out. out[i := vals ! j]) (enumerate 0 ind) (replicate (length vals) False)"

text \<open>
  Modelled from the spec: \<^verbatim>\<open>statsmodels.stats.multitest.fdrcorrection\<close> is a library
  function, no part of the repository; the specification calls it "a Benjamini-Hochberg
  false-discovery-rate procedure across the full vector of unadjusted p-values". The
  definition is \<^verbatim>\<open>fdrcorrection(pvals, alpha=0.05, method='indep', is_sorted=False)\<close>,
  the Benjamini-Hochberg step-up procedure, following the library's steps; of its two
  results the notebook uses the first, the vector of rejections.
\<close>

definition fdrcorrection :: "npfloat list \<Rightarrow> real \<Rightarrow> bool list" where
  "fdrcorrection pvals alpha =
     (let pvals_sortind = argsort pvals;
          pvals_sorted = map (\<lambda>i. pvals ! i) pvals_sortind;
          ecdffactor = ecdf (length pvals_sorted);
          reject = map (\<lambda>(p, f). np_le p (Fin (f * alpha))) (zip pvals_sorted ecdffactor);
          reject1 =
            (if True \<in> set reject
             then (let rejectmax = last (filter (\<lambda>j. reject ! j) [0..<length reject])
                   in replicate rejectmax True @ drop rejectmax reject)
             else reject)
      in scatter pvals_sortind reject1)"

text \<open>
  Modelled from the spec: the level is the keyword default \<^verbatim>\<open>alpha=0.05\<close> of the library
  function ("conventionally 0.05" in the specification); the notebook does not mention it.
\<close>

definition fdrcorrection_default_alpha :: real where
  "fdrcorrection_default_alpha = 5 / 100"

section \<open>The significance loop\<close>

text \<open>
  \<^verbatim>\<open>
    unadj_p_vals = []
    for i, change in enumerate(a):
        a_back = sum(a.values()) - a[change]
        a_fore = a[change]
        b_back = sum(b.values()) - b[change]
        b_fore = b[change]
        o_r, p, _, _ = ss.chi2_contingency([ [a_back, a_fore], [b_back, b_fore] ])
        unadj_p_vals.append((change, p))
  \<close>
  The loop runs over the keys of \<open>a\<close>. Every subscript is a \<^verbatim>\<open>defaultdict\<close> read, so
  both dictionaries are threaded through the four reads; in \<^verbatim>\<open>sum(d.values()) - d[change]\<close>
  the sum is evaluated before the read. The test function is a parameter; an error it
  returns ends the loop, as the exception does.
\<close>

fun enrichment_loop ::
  "(table \<Rightarrow> error + npfloat) \<Rightarrow> string list \<Rightarrow> counts \<Rightarrow> counts \<Rightarrow> (string \<times> npfloat) list
     \<Rightarrow> error + (counts \<times> counts \<times> (string \<times> npfloat) list)" where
  "enrichment_loop chi2 [] a b unadj = Inr (a, b, unadj)"
| "enrichment_loop chi2 (change # rest) a b unadj =
     (case dd_getitem a change of (a_c, a1) \<Rightarrow>
      case dd_getitem a1 change of (a_fore, a2) \<Rightarrow>
      case dd_getitem b change of (b_c, b1) \<Rightarrow>
      case dd_getitem b1 change of (b_fore, b2) \<Rightarrow>
      case chi2 ((sum_values a - a_c, a_fore), (sum_values b - b_c, b_fore)) of
        Inl err \<Rightarrow> Inl err
      | Inr p \<Rightarrow> enrichment_loop chi2 rest a2 b2 (unadj @ [(change, p)]))"

section \<open>The dictionaries of Python 2.7\<close>

text \<open>
  The interpreter the notebook declares is CPython 2.7.15. Its dictionary is an open
  addressing hash table, and iterating over a dictionary (\<^verbatim>\<open>keys()\<close>, \<^verbatim>\<open>values()\<close>,
  \<^verbatim>\<open>items()\<close>) visits the slots of the table in ascending order. The definitions follow
  \<^verbatim>\<open>Objects/stringobject.c\<close> and \<^verbatim>\<open>Objects/dictobject.c\<close> of that interpreter on a 64-bit
  platform, for a dictionary that is built by insertions only.

  \<^verbatim>\<open>string_hash\<close>, with hash randomisation off (the default of 2.7): \<^verbatim>\<open>x = *p << 7\<close>;
  for every character \<^verbatim>\<open>x = (1000003 * x) ^ *p++\<close>; \<^verbatim>\<open>x ^= len\<close>; the result \<open>- 1\<close> is
  replaced by \<open>- 2\<close>; the empty string hashes to 0.
\<close>

definition py27_string_hash :: "string \<Rightarrow> 64 word" where
  "py27_string_hash s =
     (case s of
        [] \<Rightarrow> 0
      | c # _ \<Rightarrow>
          (let x = foldl (\<lambda>x c. (1000003 * x) XOR of_char c) (push_bit 7 (of_char c)) s;
               y = x XOR of_nat (length s)
           in if y = - 1 then - 2 else y))"

text \<open>
  The probe sequence of \<^verbatim>\<open>lookdict_string\<close> and \<^verbatim>\<open>insertdict_clean\<close>: the first slot is
  \<^verbatim>\<open>hash & mask\<close>; while the slot is taken, \<^verbatim>\<open>i = (i << 2) + i + perturb + 1\<close> with
  \<^verbatim>\<open>perturb\<close> starting at the hash and shifted right by 5 after every probe, and the next
  slot is \<^verbatim>\<open>i & mask\<close>. The table always has a free slot and the sequence reaches every
  slot, so the loop of the interpreter ends; the recursion is bounded by a number of
  probes that is never reached.
\<close>

fun probe :: "nat \<Rightarrow> string option list \<Rightarrow> 64 word \<Rightarrow> 64 word \<Rightarrow> 64 word \<Rightarrow> nat" where
  "probe 0 tbl msk i perturb = unat (i AND msk)"
| "probe (Suc fuel) tbl msk i perturb =
     (let j = push_bit 2 i + i + perturb + 1; s = unat (j AND msk)
      in if tbl ! s = None then s else probe fuel tbl msk j (drop_bit 5 perturb))"

definition find_slot :: "string option list \<Rightarrow> 64 word \<Rightarrow> nat" where
  "find_slot tbl h =
     (let msk = of_nat (length tbl - 1); i = h AND msk
      in if tbl ! unat i = None then unat i else probe (2 * length tbl + 64) tbl msk i h)"

definition insert_clean :: "string option list \<Rightarrow> string \<Rightarrow> string option list" where
  "insert_clean tbl k = tbl[find_slot tbl (py27_string_hash k) := Some k]"

text \<open>
  \<^verbatim>\<open>dictresize\<close>: the new size is the least power of two from 8 on that exceeds
  \<^verbatim>\<open>minused\<close>, and the keys are inserted into the new table in the slot order of the
  old one.
\<close>

function newsize :: "nat \<Rightarrow> nat \<Rightarrow> nat" where
  "newsize n minused = (if 0 < n \<and> n \<le> minused then newsize (2 * n) minused else n)"
  by pat_completeness auto
termination
  by (relation "measure (\<lambda>(n, m). Suc m - n)") auto

definition table_keys :: "string option list \<Rightarrow> string list" where
  "table_keys tbl = concat (map (\<lambda>x. case x of None \<Rightarrow> [] | Some k \<Rightarrow> [k]) tbl)"

definition dictresize :: "string option list \<Rightarrow> nat \<Rightarrow> string option list" where
  "dictresize tbl minused =
     foldl insert_clean (replicate (newsize 8 minused) None) (table_keys tbl)"

text \<open>
  \<^verbatim>\<open>PyDict_SetItem\<close> for a key: a key the table holds keeps its slot; a new key takes the
  slot the probe sequence finds, and the table is resized to four times its number of
  keys (twice, beyond 50000 keys) once two thirds of its slots are filled.
\<close>

definition dict_setitem_key :: "string option list \<Rightarrow> string \<Rightarrow> string option list" where
  "dict_setitem_key tbl k =
     (if Some k \<in> set tbl then tbl
      else
        (let tbl1 = insert_clean tbl k; used = length (table_keys tbl1)
         in if length tbl1 * 2 \<le> used * 3
            then dictresize tbl1 ((if 50000 < used then 2 else 4) * used)
            else tbl1))"

text \<open>The table of a new dictionary (8 slots) after the keys were inserted in order.\<close>

definition dict_table :: "string list \<Rightarrow> string option list" where
  "dict_table ks = foldl dict_setitem_key (replicate 8 None) ks"

definition slot_of :: "string option list \<Rightarrow> string \<Rightarrow> nat" where
  "slot_of tbl k = length (takeWhile (\<lambda>x. x \<noteq> Some k) tbl)"

text \<open>
  The items of a dictionary built from a sequence of items with distinct keys, in the
  order in which the dictionary iterates: by the slots of their keys.
\<close>

definition dict_items_in_slot_order :: "counts \<Rightarrow> counts" where
  "dict_items_in_slot_order items =
     sort_key (\<lambda>(k, v). slot_of (dict_table (map fst items)) k) items"

section \<open>Sorting and normalisation\<close>

text \<open>
  \<^verbatim>\<open>{k:v for k,v in sorted(a.items())}\<close>: the items sorted as Python sorts tuples of a
  string and an integer (lexicographically, strings by code point), and a new
  dictionary into which they are inserted in that order. The new dictionary iterates
  in the order of its slots: sorting makes the two rebuilt dictionaries depend on their
  items only, not on the history of the counting dictionaries, but under Python 2.7 it
  does not make them iterate in lexicographic order.
\<close>

definition sorted_items :: "counts \<Rightarrow> counts" where
  "sorted_items d = dict_items_in_slot_order (sort d)"

text \<open>\<^verbatim>\<open>np.array(list(a.values())) / float(sum(list(a.values())))\<close>.\<close>

definition fractions :: "counts \<Rightarrow> npfloat list" where
  "fractions d = map (\<lambda>v. np_true_divide v (sum_values d)) (map snd d)"

section \<open>The two calls of \<^verbatim>\<open>ax.bar\<close>\<close>

text \<open>
  \<^verbatim>\<open>
    idx = np.arange(len(a_frac))
    width = 0.425
    ax.bar(idx, a_frac, width, ...)
    ax.bar(idx + width, b_frac, width, ...)
  \<close>
\<close>

definition arange :: "nat \<Rightarrow> real list" where
  "arange n = map real [0..<n]"

text \<open>Two shapes \<open>(n,)\<close> and \<open>(m,)\<close> broadcast when they are equal or one of them is 1.\<close>

definition broadcastable :: "nat \<Rightarrow> nat \<Rightarrow> bool" where
  "broadcastable n m = (n = m \<or> n = 1 \<or> m = 1)"

text \<open>
  Modelled from the spec: \<^verbatim>\<open>Axes.bar\<close> is a Matplotlib function, no part of the
  repository; the specification calls it "a grouped bar chart, one bar-pair per
  mutation-type category" and treats the drawing as an external service. Of the call
  the definition keeps the one error on the path of the function: the positions and the
  heights are broadcast against each other (\<^verbatim>\<open>np.broadcast_arrays\<close>), which raises
  \<^verbatim>\<open>ValueError\<close> when the two lengths differ and neither is 1; the width is a scalar.
\<close>

definition ax_bar :: "real list \<Rightarrow> npfloat list \<Rightarrow> error + unit" where
  "ax_bar x height =
     (if broadcastable (length x) (length height) then Inr ()
      else Inl (ValueError Shape_mismatch))"

section \<open>The whole call\<close>

text \<open>
  The objects of one call as a record: the two data frames the caller passes in, and
  the variables the function binds. Each block of the function is an update of this
  record. The fields \<open>a_dict\<close> and \<open>b_dict\<close> are the variables \<^verbatim>\<open>a\<close> and \<^verbatim>\<open>b\<close>.
  Printing and the other Matplotlib calls are outside the model; of the chart the
  record keeps the two height vectors passed to \<^verbatim>\<open>ax.bar\<close> and the tick labels
  \<^verbatim>\<open>a.keys()\<close>. The arguments \<^verbatim>\<open>labels\<close> and \<^verbatim>\<open>colors\<close> (two-element lists by the
  docstring) and \<^verbatim>\<open>save\<close> are only printed or handed to Matplotlib and do not enter
  any computed value.
\<close>

record env =
  df1 :: "row list"
  df2 :: "row list"
  a_dict :: counts
  b_dict :: counts
  unadj_p_vals :: "(string \<times> npfloat) list"
  signif :: "bool list"
  a_frac :: "npfloat list"
  b_frac :: "npfloat list"
  xticklabels :: "string list"

definition plot_mutation_spectrum ::
  "(table \<Rightarrow> error + npfloat) \<Rightarrow> bool \<Rightarrow> env \<Rightarrow> error + env" where
  "plot_mutation_spectrum chi2 indels e0 =
     (let e1 = e0\<lparr>a_dict := count_muts indels (df1 e0), b_dict := count_muts indels (df2 e0)\<rparr>
      in case enrichment_loop chi2 (map fst (a_dict e1)) (a_dict e1) (b_dict e1) [] of
           Inl err \<Rightarrow> Inl err
         | Inr (a', b', ps) \<Rightarrow>
             let e2 = e1\<lparr>a_dict := a', b_dict := b', unadj_p_vals := ps\<rparr>;
                 e3 = e2\<lparr>signif :=
                        fdrcorrection (map snd (unadj_p_vals e2)) fdrcorrection_default_alpha\<rparr>;
                 e4 = e3\<lparr>a_dict := sorted_items (a_dict e3), b_dict := sorted_items (b_dict e3)\<rparr>;
                 e5 = e4\<lparr>a_frac := fractions (a_dict e4), b_frac := fractions (b_dict e4)\<rparr>;
                 idx = arange (length (a_frac e5));
                 width = 425 / 1000
             in case ax_bar idx (a_frac e5) of
                  Inl err \<Rightarrow> Inl err
                | Inr u1 \<Rightarrow>
                    (case ax_bar (map (\<lambda>x. x + width) idx) (b_frac e5) of
                       Inl err \<Rightarrow> Inl err
                     | Inr u2 \<Rightarrow> Inr (e5\<lparr>xticklabels := map fst (a_dict e5)\<rparr>)))"

text \<open>A call on two frames, the variables of the function not yet bound.\<close>

definition fresh_call :: "row list \<Rightarrow> row list \<Rightarrow> env" where
  "fresh_call d1 d2 =
     \<lparr>df1 = d1, df2 = d2, a_dict = [], b_dict = [], unadj_p_vals = [], signif = [],
      a_frac = [], b_frac = [], xticklabels = []\<rparr>"

section \<open>Notions used in the statements\<close>

text \<open>The number of kept rows of a frame that carry the label \<open>m\<close>.\<close>

definition kept_with :: "bool \<Rightarrow> row list \<Rightarrow> string \<Rightarrow> nat" where
  "kept_with indels df m = length (filter (\<lambda>r. keep_row indels r \<and> mut r = m) df)"

text \<open>The count a dictionary holds for a label, zero for a label it does not hold.\<close>

definition count_of :: "counts \<Rightarrow> string \<Rightarrow> int" where
  "count_of d k = (case map_of d k of Some v \<Rightarrow> v | None \<Rightarrow> 0)"

text \<open>
  The 2 x 2 table of a category: a row for each set, one column with the remainder of
  the set and one with the category's own count.
\<close>

definition table_of :: "counts \<Rightarrow> counts \<Rightarrow> string \<Rightarrow> table" where
  "table_of a b c =
     ((sum_values a - count_of a c, count_of a c), (sum_values b - count_of b c, count_of b c))"

text \<open>
  One test per listed category, in the order listed; the first failing test decides
  the outcome.
\<close>

primrec test_all ::
  "(table \<Rightarrow> error + npfloat) \<Rightarrow> counts \<Rightarrow> counts \<Rightarrow> string list \<Rightarrow> error + (string \<times> npfloat) list" where
  "test_all chi2 a b [] = Inr []"
| "test_all chi2 a b (c # cs) =
     (case chi2 (table_of a b c) of
        Inl err \<Rightarrow> Inl err
      | Inr p \<Rightarrow> (case test_all chi2 a b cs of Inl err \<Rightarrow> Inl err | Inr ps \<Rightarrow> Inr ((c, p) # ps)))"

text \<open>A dictionary after one \<^verbatim>\<open>defaultdict\<close> read for each listed key, in order.\<close>

definition touch :: "counts \<Rightarrow> string list \<Rightarrow> counts" where
  "touch b ks = foldl (\<lambda>d k. snd (dd_getitem d k)) b ks"

section \<open>Properties of the aggregation\<close>

lemma map_of_dd_incr:
  "map_of (dd_incr d k) =
     (map_of d)(k \<mapsto> (case map_of d k of None \<Rightarrow> 1 | Some v \<Rightarrow> v + 1))"
  by (cases "map_of d k")
     (simp_all add: dd_incr_def dd_getitem_def dd_setitem_def update_conv' map_add_def
        fun_eq_iff split: option.splits)

lemma keys_dd_incr:
  "map fst (dd_incr d k) = (if k \<in> set (map fst d) then map fst d else map fst d @ [k])"
proof (cases "map_of d k")
  case None
  then have "k \<notin> fst ` set d" by (simp add: map_of_eq_None_iff)
  with None show ?thesis
    by (simp add: dd_incr_def dd_getitem_def dd_setitem_def update_keys)
next
  case (Some v)
  then have "k \<in> fst ` set d" by (force dest: map_of_SomeD)
  with Some show ?thesis
    by (simp add: dd_incr_def dd_getitem_def dd_setitem_def update_keys)
qed

lemma distinct_dd_incr:
  "distinct (map fst d) \<Longrightarrow> distinct (map fst (dd_incr d k))"
  by (simp add: keys_dd_incr)

lemma count_row_keep:
  "count_row indels a r = (if keep_row indels r then dd_incr a (mut r) else a)"
  by (simp add: keep_row_def)

lemma distinct_foldl_count_row:
  "distinct (map fst a) \<Longrightarrow> distinct (map fst (foldl (count_row indels) a df))"
proof (induction df arbitrary: a)
  case Nil
  then show ?case by simp
next
  case (Cons r df)
  have "distinct (map fst (count_row indels a r))"
    using Cons.prems by (simp add: distinct_dd_incr del: keys_dd_incr)
  then show ?case using Cons.IH by simp
qed

lemma distinct_count_muts: "distinct (map fst (count_muts indels df))"
  by (simp add: count_muts_def distinct_foldl_count_row)

lemma map_of_foldl_count_row:
  "map_of (foldl (count_row indels) a df) m =
     (case map_of a m of
        None \<Rightarrow> (if kept_with indels df m = 0 then None else Some (int (kept_with indels df m)))
      | Some v \<Rightarrow> Some (v + int (kept_with indels df m)))"
proof (induction df arbitrary: a)
  case Nil
  then show ?case by (simp add: kept_with_def split: option.splits)
next
  case (Cons r df)
  have step: "map_of (count_row indels a r) m =
      (if keep_row indels r \<and> mut r = m
       then Some (case map_of a m of None \<Rightarrow> 1 | Some v \<Rightarrow> v + 1)
       else map_of a m)"
    by (simp add: count_row_keep map_of_dd_incr del: count_row.simps)
  have kw: "kept_with indels (r # df) m =
      (if keep_row indels r \<and> mut r = m then Suc (kept_with indels df m)
       else kept_with indels df m)"
    by (simp add: kept_with_def)
  show ?case
    unfolding foldl_Cons Cons.IH [of "count_row indels a r"] step kw
    by (simp split: option.splits)
qed

lemma map_of_count_muts:
  "map_of (count_muts indels df) m =
     (if kept_with indels df m = 0 then None else Some (int (kept_with indels df m)))"
  by (simp add: count_muts_def map_of_foldl_count_row)

lemma count_muts_filter:
  "foldl (count_row indels) a (filter (keep_row indels) df) = foldl (count_row indels) a df"
  by (induction df arbitrary: a) (simp_all add: count_row_keep del: count_row.simps)

section \<open>Properties of the significance loop\<close>

lemma fst_dd_getitem: "fst (dd_getitem d k) = count_of d k"
  by (simp add: dd_getitem_def count_of_def split: option.splits)

lemma snd_dd_getitem:
  "snd (dd_getitem d k) = (if k \<in> fst ` set d then d else d @ [(k, 0)])"
  by (auto simp add: dd_getitem_def map_of_eq_None_iff split: option.splits
      dest: map_of_SomeD intro: rev_image_eqI)

lemma sum_values_touch1: "sum_values (snd (dd_getitem d k)) = sum_values d"
  by (simp add: snd_dd_getitem sum_values_def)

lemma count_of_touch1: "count_of (snd (dd_getitem d k)) k' = count_of d k'"
  by (simp add: snd_dd_getitem count_of_def map_add_def split: option.splits)

lemma dd_getitem_present: "k \<in> fst ` set d \<Longrightarrow> dd_getitem d k = (count_of d k, d)"
  by (metis fst_dd_getitem snd_dd_getitem prod.collapse)

lemma dd_getitem_twice:
  "dd_getitem (snd (dd_getitem d k)) k = (count_of d k, snd (dd_getitem d k))"
proof -
  have "k \<in> fst ` set (snd (dd_getitem d k))" by (simp add: snd_dd_getitem)
  then show ?thesis by (simp add: dd_getitem_present count_of_touch1)
qed

lemma table_of_touch1: "table_of a (snd (dd_getitem b k)) c = table_of a b c"
  by (simp add: table_of_def sum_values_touch1 count_of_touch1)

lemma test_all_touch1: "test_all chi2 a (snd (dd_getitem b k)) cs = test_all chi2 a b cs"
  by (induction cs) (simp_all add: table_of_touch1 split: sum.splits)

lemma enrichment_loop_eq:
  "set ks \<subseteq> fst ` set a \<Longrightarrow>
   enrichment_loop chi2 ks a b unadj =
     (case test_all chi2 a b ks of
        Inl err \<Rightarrow> Inl err
      | Inr ps \<Rightarrow> Inr (a, touch b ks, unadj @ ps))"
proof (induction ks arbitrary: b unadj)
  case Nil
  then show ?case by (simp add: touch_def)
next
  case (Cons c cs)
  define b1 where "b1 = snd (dd_getitem b c)"
  have ca: "dd_getitem a c = (count_of a c, a)"
    using Cons.prems by (simp add: dd_getitem_present)
  have cb: "dd_getitem b c = (count_of b c, b1)"
    unfolding b1_def by (metis fst_dd_getitem prod.collapse)
  have cb1: "dd_getitem b1 c = (count_of b c, b1)"
    unfolding b1_def by (rule dd_getitem_twice)
  have sub: "set cs \<subseteq> fst ` set a" using Cons.prems by simp
  have t: "touch b (c # cs) = touch b1 cs" by (simp add: touch_def b1_def)
  have ta: "test_all chi2 a b1 cs = test_all chi2 a b cs"
    unfolding b1_def by (rule test_all_touch1)
  have step: "enrichment_loop chi2 (c # cs) a b unadj =
      (case chi2 (table_of a b c) of
         Inl err \<Rightarrow> Inl err
       | Inr p \<Rightarrow> enrichment_loop chi2 cs a b1 (unadj @ [(c, p)]))"
    by (simp add: ca cb cb1 table_of_def)
  show ?case
  proof (cases "chi2 (table_of a b c)")
    case (Inl err)
    then show ?thesis unfolding step by simp
  next
    case (Inr p)
    then show ?thesis
      by (simp add: step Cons.IH [OF sub] t ta del: enrichment_loop.simps split: sum.splits)
  qed
qed

lemma touch_eq:
  "distinct ks \<Longrightarrow>
   touch b ks = b @ map (\<lambda>k. (k, 0)) (filter (\<lambda>k. k \<notin> fst ` set b) ks)"
proof (induction ks arbitrary: b)
  case Nil
  then show ?case by (simp add: touch_def)
next
  case (Cons k ks)
  let ?b1 = "snd (dd_getitem b k)"
  have d: "distinct ks" and nk: "k \<notin> set ks" using Cons.prems by simp_all
  have f: "filter (\<lambda>k'. k' \<notin> fst ` set ?b1) ks = filter (\<lambda>k'. k' \<notin> fst ` set b) ks"
    using nk by (intro filter_cong) (auto simp add: snd_dd_getitem)
  have "touch b (k # ks) = touch ?b1 ks" by (simp add: touch_def)
  also have "\<dots> = ?b1 @ map (\<lambda>k. (k, 0)) (filter (\<lambda>k'. k' \<notin> fst ` set b) ks)"
    using Cons.IH [OF d, of ?b1] f by simp
  finally show ?case by (simp add: snd_dd_getitem)
qed

section \<open>Properties of the whole call\<close>

lemma test_all_Inr_iff:
  "test_all chi2 a b ks = Inr ps \<longleftrightarrow>
     map fst ps = ks \<and> (\<forall>(c, p) \<in> set ps. chi2 (table_of a b c) = Inr p)"
proof (induction ks arbitrary: ps)
  case Nil
  then show ?case by auto
next
  case (Cons k ks)
  show ?case
  proof (cases "chi2 (table_of a b k)")
    case (Inl err)
    then show ?thesis by (cases ps) auto
  next
    case (Inr p)
    show ?thesis
    proof (cases "test_all chi2 a b ks")
      case (Inl err)
      with Inr Cons.IH show ?thesis by (cases ps) auto
    next
      case r: (Inr qs)
      with Inr Cons.IH [of qs] Cons.IH show ?thesis by (cases ps) auto
    qed
  qed
qed

lemma test_all_Inl_iff:
  "(\<exists>err. test_all chi2 a b ks = Inl err) \<longleftrightarrow> (\<exists>c \<in> set ks. \<exists>err. chi2 (table_of a b c) = Inl err)"
  by (induction ks) (auto split: sum.splits)

lemma sum_list_insort_key:
  "sum_list (map f (insort_key k x xs)) = f x + sum_list (map f xs)"
  for f :: "'a \<Rightarrow> int"
  by (induction xs) simp_all

lemma sum_list_sort_key: "sum_list (map f (sort_key k xs)) = sum_list (map f xs)"
  for f :: "'a \<Rightarrow> int"
  by (induction xs) (simp_all add: sum_list_insort_key)

lemma sum_values_sorted_items: "sum_values (sorted_items d) = sum_values d"
  by (simp add: sum_values_def sorted_items_def dict_items_in_slot_order_def sum_list_sort_key)

lemma set_sorted_items: "set (sorted_items d) = set d"
  by (simp add: sorted_items_def dict_items_in_slot_order_def)

lemma length_sorted_items: "length (sorted_items d) = length d"
  by (simp add: sorted_items_def dict_items_in_slot_order_def)


lemma sorted_items_single: "sorted_items [x] = [x]"
  by (simp add: sorted_items_def dict_items_in_slot_order_def)

lemma length_fractions: "length (fractions d) = length d"
  by (simp add: fractions_def)

lemma ax_bar_first: "ax_bar (arange (length h)) h = Inr ()"
  by (simp add: ax_bar_def arange_def broadcastable_def)

lemma ax_bar_second:
  "ax_bar (map f (arange n)) h =
     (if broadcastable n (length h) then Inr () else Inl (ValueError Shape_mismatch))"
  by (simp add: ax_bar_def arange_def)

lemma plot_mutation_spectrum_eq:
  "plot_mutation_spectrum chi2 indels e =
     (case test_all chi2 (count_muts indels (df1 e)) (count_muts indels (df2 e))
             (map fst (count_muts indels (df1 e))) of
        Inl err \<Rightarrow> Inl err
      | Inr ps \<Rightarrow>
          if broadcastable (length (count_muts indels (df1 e)))
               (length (touch (count_muts indels (df2 e)) (map fst (count_muts indels (df1 e)))))
          then
            Inr (e\<lparr>a_dict := sorted_items (count_muts indels (df1 e)),
                   b_dict := sorted_items
                     (touch (count_muts indels (df2 e)) (map fst (count_muts indels (df1 e)))),
                   unadj_p_vals := ps,
                   signif := fdrcorrection (map snd ps) fdrcorrection_default_alpha,
                   a_frac := fractions (sorted_items (count_muts indels (df1 e))),
                   b_frac := fractions (sorted_items
                     (touch (count_muts indels (df2 e)) (map fst (count_muts indels (df1 e))))),
                   xticklabels := map fst (sorted_items (count_muts indels (df1 e)))\<rparr>)
          else Inl (ValueError Shape_mismatch))"
  by (simp add: plot_mutation_spectrum_def Let_def enrichment_loop_eq ax_bar_first ax_bar_second
      length_fractions length_sorted_items split: sum.splits)

section \<open>The slot order of some rebuilt dictionaries\<close>

text \<open>
  Two hashes that CPython 2.7 gives on a 64-bit platform, \<^verbatim>\<open>hash('a')\<close> and
  \<^verbatim>\<open>hash('abc')\<close>, and the iteration order of the dictionary rebuilt from the eight
  mutation types of the data, which is resized once on the way.
\<close>

lemma py27_string_hash_known_values:
  "sint (py27_string_hash ''a'') = 12416037344"
  "sint (py27_string_hash ''abc'') = 1453079729188098211"
  by code_simp+

lemma slot_order_of_eight_types:
  "map fst (sorted_items
     [(''indel'', 1), (''A>C'', 1), (''A>G'', 1), (''A>T'', 1), (''C>A'', 1), (''C>G'', 1),
      (''C>T'', 1), (''CpG>TpG'', 1)])
   = [''A>T'', ''C>G'', ''C>A'', ''C>T'', ''A>G'', ''indel'', ''A>C'', ''CpG>TpG'']"
  by code_simp

lemma dict_table_TA_TC:
  "dict_table [''T>A'', ''T>C''] =
     [None, None, None, None, Some ''T>A'', None, Some ''T>C'', None]"
  by code_simp

lemma dict_table_CA_CT:
  "dict_table [''C>A'', ''C>T''] =
     [None, None, Some ''C>T'', None, None, None, None, Some ''C>A'']"
  by code_simp

lemma dict_table_CT_GA:
  "dict_table [''C>T'', ''G>A''] =
     [None, None, Some ''C>T'', Some ''G>A'', None, None, None, None]"
  by code_simp

lemma sorted_items_TC_TA:
  "sorted_items [(''T>C'', x), (''T>A'', y)] = [(''T>A'', y), (''T>C'', x)]"
  by (simp add: sorted_items_def dict_items_in_slot_order_def dict_table_TA_TC slot_of_def)

lemma sorted_items_TA_TC:
  "sorted_items [(''T>A'', x), (''T>C'', y)] = [(''T>A'', x), (''T>C'', y)]"
  by (simp add: sorted_items_def dict_items_in_slot_order_def dict_table_TA_TC slot_of_def)

lemma sorted_items_CA_CT:
  "sorted_items [(''C>A'', x), (''C>T'', y)] = [(''C>T'', y), (''C>A'', x)]"
  by (simp add: sorted_items_def dict_items_in_slot_order_def dict_table_CA_CT slot_of_def)

lemma sorted_items_GA_CT:
  "sorted_items [(''G>A'', x), (''C>T'', y)] = [(''C>T'', y), (''G>A'', x)]"
  by (simp add: sorted_items_def dict_items_in_slot_order_def dict_table_CT_GA slot_of_def)

lemma touch_present: "set ks \<subseteq> fst ` set b \<Longrightarrow> touch b ks = b"
  unfolding touch_def by (induction ks) (simp_all add: snd_dd_getitem)

section \<open>Properties of the chi-square test on degenerate and proportional tables\<close>

lemma erf_zero: "erf 0 = 0"
  by (simp add: erf_def)

lemma chi2_sf_zero: "chi2_sf 0 = 1"
  by (simp add: chi2_sf_def erf_zero)

lemma pearson_term_same: "pearson_term x x = 0"
  by (simp add: pearson_term_def yates_def)

lemma chi2_contingency_equal_rows:
  assumes "0 < x" "0 < y"
  shows "chi2_contingency ((x, y), (x, y)) = Inr (Fin 1)"
proof -
  have n: "x + y + (x + y) \<noteq> 0" using assms by simp
  have e1: "real_of_int ((x + y) * (x + x)) / real_of_int (x + y + (x + y)) = real_of_int x"
    using assms by (simp add: field_simps)
  have e2: "real_of_int ((x + y) * (y + y)) / real_of_int (x + y + (x + y)) = real_of_int y"
    using assms by (simp add: field_simps)
  show ?thesis
    using assms n unfolding chi2_contingency_def Let_def prod.case e1 e2
    by (simp add: pearson_term_same chi2_sf_zero)
qed


lemma chi2_contingency_zero_column:
  assumes "0 \<le> x" "0 \<le> y" "0 < x + y"
  shows "chi2_contingency ((0, x), (0, y)) =
    Inl (ValueError Zero_expected_frequency)"
  using assms by (simp add: chi2_contingency_def Let_def)


section \<open>Counts of an aggregated dictionary\<close>

lemma count_muts_positive:
  assumes "(k, v) \<in> set (count_muts indels df)"
  shows "1 \<le> v"
proof -
  have "map_of (count_muts indels df) k = Some v"
    using assms distinct_count_muts by (simp add: map_of_eq_Some_iff)
  then show ?thesis
    by (simp add: map_of_count_muts split: if_splits)
qed

lemma count_of_member:
  assumes "distinct (map fst d)" "(k, v) \<in> set d"
  shows "count_of d k = v"
  using assms by (simp add: count_of_def map_of_eq_Some_iff)

lemma count_of_absent: "k \<notin> fst ` set d \<Longrightarrow> count_of d k = 0"
  by (simp add: count_of_def map_of_eq_None_iff [THEN iffD2])

lemma sum_values_ge_length:
  assumes "\<forall>(k, v) \<in> set d. 1 \<le> v"
  shows "int (length d) \<le> sum_values d"
  using assms unfolding sum_values_def by (induction d) auto

lemma sum_values_remove1:
  assumes "(k, v) \<in> set d"
  shows "sum_values d = v + sum_values (remove1 (k, v) d)"
  using assms unfolding sum_values_def by (induction d) auto

lemma remainder_positive:
  assumes "distinct (map fst d)" "\<forall>(k, v) \<in> set d. 1 \<le> v" "2 \<le> length d"
    and "c \<in> fst ` set d"
  shows "1 \<le> sum_values d - count_of d c"
proof -
  from assms(4) obtain v where m: "(c, v) \<in> set d" by auto
  have cv: "count_of d c = v" using assms(1) m by (rule count_of_member)
  have "\<forall>(k, v) \<in> set (remove1 (c, v) d). 1 \<le> v"
    using assms(2) by (auto dest: notin_set_remove1)
  then have "int (length (remove1 (c, v) d)) \<le> sum_values (remove1 (c, v) d)"
    by (rule sum_values_ge_length)
  moreover have "length (remove1 (c, v) d) = length d - 1"
    using m by (simp add: length_remove1)
  ultimately have "1 \<le> sum_values (remove1 (c, v) d)" using assms(3) by simp
  then show ?thesis using sum_values_remove1 [OF m] cv by simp
qed

lemma keys_count_muts:
  "fst ` set (count_muts indels df) = mut ` set (autosome_indel_filter indels df)"
proof -
  have "k \<in> fst ` set (count_muts indels df) \<longleftrightarrow> k \<in> mut ` set (autosome_indel_filter indels df)"
    for k
  proof -
    have "k \<in> fst ` set (count_muts indels df) \<longleftrightarrow> map_of (count_muts indels df) k \<noteq> None"
      by (simp add: map_of_eq_None_iff)
    also have "\<dots> \<longleftrightarrow> kept_with indels df k \<noteq> 0"
      by (simp add: map_of_count_muts)
    also have "\<dots> \<longleftrightarrow> (\<exists>r \<in> set df. keep_row indels r \<and> mut r = k)"
      by (auto simp add: kept_with_def filter_empty_conv)
    also have "\<dots> \<longleftrightarrow> k \<in> mut ` set (autosome_indel_filter indels df)"
      by (auto simp add: autosome_indel_filter_def)
    finally show ?thesis .
  qed
  then show ?thesis by blast
qed

lemma length_count_muts:
  "length (count_muts indels df) = card (mut ` set (autosome_indel_filter indels df))"
proof -
  have "length (count_muts indels df) = length (map fst (count_muts indels df))" by simp
  also have "\<dots> = card (set (map fst (count_muts indels df)))"
    using distinct_count_muts by (rule distinct_card [symmetric])
  finally show ?thesis by (simp add: keys_count_muts)
qed

section \<open>Properties of the Benjamini-Hochberg procedure\<close>

lemma set_argsort: "set (argsort ps) = {0..<length ps}"
  by (simp add: argsort_def)

lemma length_argsort: "length (argsort ps) = length ps"
  by (simp add: argsort_def)

lemma ecdf_le_one: "f \<in> set (ecdf n) \<Longrightarrow> f \<le> 1"
  by (auto simp add: ecdf_def divide_le_eq_1)

lemma length_ecdf: "length (ecdf n) = n"
  by (simp add: ecdf_def)

lemma fold_update_all_False:
  assumes "\<forall>(j, i) \<in> set js. \<not> vals ! j" "\<forall>x \<in> set out. \<not> x"
  shows "\<forall>x \<in> set (fold (\<lambda>(j, i) out. out[i := vals ! j]) js out). \<not> x"
  using assms
proof (induction js arbitrary: out)
  case Nil
  then show ?case by simp
next
  case (Cons ji js)
  obtain j i where ji: "ji = (j, i)" by (cases ji)
  have "\<forall>x \<in> set (out[i := vals ! j]). \<not> x"
    using Cons.prems ji set_update_subset_insert [of out i "vals ! j"] by auto
  then show ?case using Cons.IH [of "out[i := vals ! j]"] Cons.prems ji by simp
qed

lemma length_fold_update:
  "length (fold (\<lambda>(j, i) out. out[i := vals ! j]) js out) = length out"
  by (induction js arbitrary: out) (auto)

lemma length_scatter: "length (scatter ind vals) = length vals"
  by (simp add: scatter_def length_fold_update)

lemma scatter_all_False:
  assumes "\<forall>j < length ind. \<not> vals ! j"
  shows "\<forall>x \<in> set (scatter ind vals). \<not> x"
  unfolding scatter_def
  by (rule fold_update_all_False) (use assms in \<open>auto simp add: in_set_enumerate_eq\<close>)

lemma fdrcorrection_all_ones:
  assumes "\<forall>p \<in> set ps. p = Fin 1" "alpha < 1" "0 \<le> alpha"
  shows "\<forall>x \<in> set (fdrcorrection ps alpha). \<not> x"
proof -
  define srt where "srt = map (\<lambda>i. ps ! i) (argsort ps)"
  define reject where
    "reject = map (\<lambda>(p, f). np_le p (Fin (f * alpha))) (zip srt (ecdf (length srt)))"
  have srt1: "\<forall>p \<in> set srt. p = Fin 1"
    using assms(1) by (auto simp add: srt_def set_argsort)
  have nr: "\<not> x" if "x \<in> set reject" for x
  proof -
    from that obtain p f where pf: "(p, f) \<in> set (zip srt (ecdf (length srt)))"
      and x: "x = np_le p (Fin (f * alpha))"
      by (auto simp add: reject_def)
    have "p \<in> set srt" using pf by (rule set_zip_leftD)
    then have "p = Fin 1" using srt1 by simp
    moreover have "f \<in> set (ecdf (length srt))" using pf by (rule set_zip_rightD)
    then have "f \<le> 1" by (rule ecdf_le_one)
    then have "f * alpha \<le> 1 * alpha" using assms(3) by (rule mult_right_mono)
    then have "f * alpha < 1" using assms(2) by simp
    ultimately show ?thesis using x by simp
  qed
  then have nT: "True \<notin> set reject" by blast
  have len: "length reject = length (argsort ps)"
    by (simp add: reject_def srt_def length_ecdf)
  have eq: "fdrcorrection ps alpha = scatter (argsort ps) reject"
    using nT unfolding fdrcorrection_def Let_def srt_def [symmetric] reject_def [symmetric]
    by simp
  have "\<not> reject ! j" if "j < length (argsort ps)" for j
  proof -
    have "reject ! j \<in> set reject" using that len by simp
    then show ?thesis by (rule nr)
  qed
  then have "\<forall>j < length (argsort ps). \<not> reject ! j" by blast
  then have "\<forall>x \<in> set (scatter (argsort ps) reject). \<not> x" by (rule scatter_all_False)
  then show ?thesis unfolding eq .
qed

lemma length_fdrcorrection: "length (fdrcorrection ps alpha) = length ps"
proof -
  define srt where "srt = map (\<lambda>i. ps ! i) (argsort ps)"
  define reject where
    "reject = map (\<lambda>(p, f). np_le p (Fin (f * alpha))) (zip srt (ecdf (length srt)))"
  define reject1 where
    "reject1 = (if True \<in> set reject
             then (let rejectmax = last (filter (\<lambda>j. reject ! j) [0..<length reject])
                   in replicate rejectmax True @ drop rejectmax reject)
             else reject)"
  have len: "length reject = length ps"
    by (simp add: reject_def srt_def length_ecdf length_argsort)
  have "length reject1 = length reject"
  proof (cases "True \<in> set reject")
    case True
    then obtain j where j: "j < length reject" "reject ! j" by (metis in_set_conv_nth)
    then have ne: "filter (\<lambda>j. reject ! j) [0..<length reject] \<noteq> []"
      by (auto simp add: filter_empty_conv)
    have "last (filter (\<lambda>j. reject ! j) [0..<length reject])
        \<in> set (filter (\<lambda>j. reject ! j) [0..<length reject])"
      using ne by (rule last_in_set)
    then have "last (filter (\<lambda>j. reject ! j) [0..<length reject]) < length reject" by simp
    then show ?thesis using True by (simp add: reject1_def Let_def)
  next
    case False
    then show ?thesis by (simp add: reject1_def)
  qed
  moreover have "fdrcorrection ps alpha = scatter (argsort ps) reject1"
    unfolding fdrcorrection_def Let_def srt_def [symmetric] reject_def [symmetric]
      reject1_def Let_def ..
  ultimately show ?thesis by (simp add: length_scatter len)
qed

lemma fdr_reference:
  "fdrcorrection [Fin (1 / 1000), Fin (2 / 10), Fin (5 / 10), Fin (8 / 10)] (5 / 100)
     = [True, False, False, False]"
  by code_simp

section \<open>Claims about the aggregator\<close>

text \<open>
  C1. A row is skipped exactly when its chromosome label is \<open>''X''\<close>, or its mutation
  type is \<open>''indel''\<close> while indels are excluded (\<open>indels = False\<close>); the dictionary
  built from a frame has one entry per label that some kept row carries, holding the
  number of kept rows with that label, and no entry for any other label. On the frame
  \<open>[(1, T>C), (X, T>C), (1, indel)]\<close> with indels excluded the dictionary is
  \<open>{T>C: 1}\<close>.
\<close>

theorem aggregator_counts_kept_rows:
  "(keep_row indels r \<longleftrightarrow> \<not> (chrom r = ''X'' \<or> (mut r = ''indel'' \<and> \<not> indels)))
   \<and> map_of (count_muts indels df) m =
       (if length (filter (\<lambda>r. \<not> (chrom r = ''X'' \<or> (mut r = ''indel'' \<and> \<not> indels))
                              \<and> mut r = m) df) = 0
        then None
        else Some (int (length (filter
               (\<lambda>r. \<not> (chrom r = ''X'' \<or> (mut r = ''indel'' \<and> \<not> indels)) \<and> mut r = m) df))))
   \<and> count_row indels a r =
       (if chrom r = ''X'' \<or> (mut r = ''indel'' \<and> \<not> indels) then a else dd_incr a (mut r))
   \<and> distinct (map fst (count_muts indels df))
   \<and> count_muts False
        [\<lparr>chrom = ''1'', mut = ''T>C''\<rparr>, \<lparr>chrom = ''X'', mut = ''T>C''\<rparr>,
         \<lparr>chrom = ''1'', mut = ''indel''\<rparr>] = [(''T>C'', 1)]"
proof -
  have k: "keep_row indels r \<longleftrightarrow> \<not> (chrom r = ''X'' \<or> (mut r = ''indel'' \<and> \<not> indels))" for r
    by (auto simp add: keep_row_def)
  have f: "kept_with indels df m =
      length (filter (\<lambda>r. \<not> (chrom r = ''X'' \<or> (mut r = ''indel'' \<and> \<not> indels)) \<and> mut r = m) df)"
    unfolding kept_with_def k ..
  have ex: "count_muts False
        [\<lparr>chrom = ''1'', mut = ''T>C''\<rparr>, \<lparr>chrom = ''X'', mut = ''T>C''\<rparr>,
         \<lparr>chrom = ''1'', mut = ''indel''\<rparr>] = [(''T>C'', 1)]"
    by (simp add: count_muts_def dd_incr_def dd_getitem_def dd_setitem_def)
  show ?thesis
    using k [of r] map_of_count_muts [of indels df m] distinct_count_muts [of indels df] ex
    unfolding f by auto
qed

text \<open>
  C5. For a fixed indel policy, filtering is idempotent: the rows kept from the kept
  rows are the kept rows, and counting the kept rows gives the same dictionary as
  counting the whole frame.
\<close>

theorem filter_idempotent:
  "autosome_indel_filter indels (autosome_indel_filter indels df) =
     autosome_indel_filter indels df
   \<and> count_muts indels (autosome_indel_filter indels df) = count_muts indels df"
  by (simp add: autosome_indel_filter_def count_muts_def count_muts_filter)

section \<open>Claims about the significance step\<close>



section \<open>Claims about the effects of a call\<close>

lemma env_locals_overwritten:
  fixes e1 e2 :: env
  assumes "df1 e1 = df1 e2" "df2 e1 = df2 e2"
  shows "e1\<lparr>a_dict := x1, b_dict := x2, unadj_p_vals := x3, signif := x4, a_frac := x5,
            b_frac := x6, xticklabels := x7\<rparr>
       = e2\<lparr>a_dict := x1, b_dict := x2, unadj_p_vals := x3, signif := x4, a_frac := x5,
            b_frac := x6, xticklabels := x7\<rparr>"
  using assms by (cases e1, cases e2) simp

lemma plot_depends_on_frames_only:
  assumes "df1 e1 = df1 e2" "df2 e1 = df2 e2"
  shows "plot_mutation_spectrum chi2 indels e1 = plot_mutation_spectrum chi2 indels e2"
  unfolding plot_mutation_spectrum_eq
  using assms env_locals_overwritten [OF assms]
  by (simp split: sum.splits)

lemma plot_keeps_frames:
  assumes "plot_mutation_spectrum chi2 indels e = Inr e'"
  shows "df1 e' = df1 e \<and> df2 e' = df2 e"
  using assms unfolding plot_mutation_spectrum_eq by (auto split: sum.splits if_splits)

text \<open>
  C9. A call does not change the two frames it is given, and its outcome (the error,
  or the counts, p-values, flags and fractions) depends on nothing but the two frames,
  the indel policy and the test function: whatever the variables of an earlier call
  held is overwritten. In particular a call repeated on the state that a call left
  behind gives the same state again.
\<close>

theorem call_keeps_frames_and_carries_no_state:
  "(plot_mutation_spectrum chi2 indels e = Inr e' \<longrightarrow>
      df1 e' = df1 e \<and> df2 e' = df2 e \<and> plot_mutation_spectrum chi2 indels e' = Inr e')
   \<and> (df1 e1 = df1 e2 \<and> df2 e1 = df2 e2 \<longrightarrow>
      plot_mutation_spectrum chi2 indels e1 = plot_mutation_spectrum chi2 indels e2)"
proof -
  have "plot_mutation_spectrum chi2 indels e' = Inr e'"
    if h: "plot_mutation_spectrum chi2 indels e = Inr e'"
  proof -
    have "df1 e' = df1 e" "df2 e' = df2 e" using plot_keeps_frames [OF h] by simp_all
    then have "plot_mutation_spectrum chi2 indels e' = plot_mutation_spectrum chi2 indels e"
      by (rule plot_depends_on_frames_only)
    then show ?thesis using h by simp
  qed
  then show ?thesis
    using plot_keeps_frames plot_depends_on_frames_only by blast
qed

lemma two_types_call:
  "plot_mutation_spectrum chi2_contingency True
     (fresh_call [\<lparr>chrom = ''1'', mut = ''T>C''\<rparr>, \<lparr>chrom = ''2'', mut = ''T>A''\<rparr>]
                 [\<lparr>chrom = ''1'', mut = ''T>C''\<rparr>, \<lparr>chrom = ''2'', mut = ''T>A''\<rparr>])
   = Inr \<lparr>df1 = [\<lparr>chrom = ''1'', mut = ''T>C''\<rparr>, \<lparr>chrom = ''2'', mut = ''T>A''\<rparr>],
          df2 = [\<lparr>chrom = ''1'', mut = ''T>C''\<rparr>, \<lparr>chrom = ''2'', mut = ''T>A''\<rparr>],
          a_dict = [(''T>A'', 1), (''T>C'', 1)], b_dict = [(''T>A'', 1), (''T>C'', 1)],
          unadj_p_vals = [(''T>C'', Fin 1), (''T>A'', Fin 1)], signif = [False, False],
          a_frac = [Fin (1 / 2), Fin (1 / 2)], b_frac = [Fin (1 / 2), Fin (1 / 2)],
          xticklabels = [''T>A'', ''T>C'']\<rparr>"
proof -
  have c: "count_muts True [\<lparr>chrom = ''1'', mut = ''T>C''\<rparr>, \<lparr>chrom = ''2'', mut = ''T>A''\<rparr>]
      = [(''T>C'', 1), (''T>A'', 1)]"
    by (simp add: count_muts_def dd_incr_def dd_getitem_def dd_setitem_def)
  have f: "fdrcorrection [Fin 1, Fin 1] fdrcorrection_default_alpha = [False, False]"
    unfolding fdrcorrection_default_alpha_def by code_simp
  have t: "test_all chi2_contingency [(''T>C'', 1), (''T>A'', 1)] [(''T>C'', 1), (''T>A'', 1)]
      [''T>C'', ''T>A''] = Inr [(''T>C'', Fin 1), (''T>A'', Fin 1)]"
    by (simp add: table_of_def count_of_def sum_values_def chi2_contingency_equal_rows)
  have tb: "touch [(''T>C'', 1), (''T>A'', 1)] [''T>C'', ''T>A''] = [(''T>C'', 1), (''T>A'', 1)]"
    by (simp add: touch_def dd_getitem_def)
  have s: "sorted_items [(''T>C'', 1), (''T>A'', 1)] = [(''T>A'', 1), (''T>C'', 1)]"
    by (rule sorted_items_TC_TA)
  have fr: "fractions [(''T>A'', 1), (''T>C'', 1)] = [Fin (1 / 2), Fin (1 / 2)]"
    by (simp add: fractions_def sum_values_def np_true_divide_def)
  show ?thesis
    unfolding plot_mutation_spectrum_eq
    by (simp add: fresh_call_def c t tb s fr f broadcastable_def del: test_all.simps)
qed

theorem call_keeps_frames_and_carries_no_state_witness:
  "plot_mutation_spectrum chi2_contingency True
     \<lparr>df1 = [\<lparr>chrom = ''1'', mut = ''T>C''\<rparr>, \<lparr>chrom = ''2'', mut = ''T>A''\<rparr>],
      df2 = [\<lparr>chrom = ''1'', mut = ''T>C''\<rparr>, \<lparr>chrom = ''2'', mut = ''T>A''\<rparr>],
      a_dict = [(''T>A'', 1), (''T>C'', 1)], b_dict = [(''T>A'', 1), (''T>C'', 1)],
      unadj_p_vals = [(''T>C'', Fin 1), (''T>A'', Fin 1)], signif = [False, False],
      a_frac = [Fin (1 / 2), Fin (1 / 2)], b_frac = [Fin (1 / 2), Fin (1 / 2)],
      xticklabels = [''T>A'', ''T>C'']\<rparr>
   = Inr \<lparr>df1 = [\<lparr>chrom = ''1'', mut = ''T>C''\<rparr>, \<lparr>chrom = ''2'', mut = ''T>A''\<rparr>],
          df2 = [\<lparr>chrom = ''1'', mut = ''T>C''\<rparr>, \<lparr>chrom = ''2'', mut = ''T>A''\<rparr>],
          a_dict = [(''T>A'', 1), (''T>C'', 1)], b_dict = [(''T>A'', 1), (''T>C'', 1)],
          unadj_p_vals = [(''T>C'', Fin 1), (''T>A'', Fin 1)], signif = [False, False],
          a_frac = [Fin (1 / 2), Fin (1 / 2)], b_frac = [Fin (1 / 2), Fin (1 / 2)],
          xticklabels = [''T>A'', ''T>C'']\<rparr>
   \<and> plot_mutation_spectrum chi2_contingency True
       (fresh_call [\<lparr>chrom = ''1'', mut = ''T>C''\<rparr>, \<lparr>chrom = ''2'', mut = ''T>A''\<rparr>]
                   [\<lparr>chrom = ''1'', mut = ''T>C''\<rparr>, \<lparr>chrom = ''2'', mut = ''T>A''\<rparr>])
     = plot_mutation_spectrum chi2_contingency True
       ((fresh_call [\<lparr>chrom = ''1'', mut = ''T>C''\<rparr>, \<lparr>chrom = ''2'', mut = ''T>A''\<rparr>]
                    [\<lparr>chrom = ''1'', mut = ''T>C''\<rparr>, \<lparr>chrom = ''2'', mut = ''T>A''\<rparr>])
         \<lparr>a_dict := [(''stale'', 7)], signif := [True]\<rparr>)"
proof (rule conjI)
  show "plot_mutation_spectrum chi2_contingency True
     \<lparr>df1 = [\<lparr>chrom = ''1'', mut = ''T>C''\<rparr>, \<lparr>chrom = ''2'', mut = ''T>A''\<rparr>],
      df2 = [\<lparr>chrom = ''1'', mut = ''T>C''\<rparr>, \<lparr>chrom = ''2'', mut = ''T>A''\<rparr>],
      a_dict = [(''T>A'', 1), (''T>C'', 1)], b_dict = [(''T>A'', 1), (''T>C'', 1)],
      unadj_p_vals = [(''T>C'', Fin 1), (''T>A'', Fin 1)], signif = [False, False],
      a_frac = [Fin (1 / 2), Fin (1 / 2)], b_frac = [Fin (1 / 2), Fin (1 / 2)],
      xticklabels = [''T>A'', ''T>C'']\<rparr>
   = Inr \<lparr>df1 = [\<lparr>chrom = ''1'', mut = ''T>C''\<rparr>, \<lparr>chrom = ''2'', mut = ''T>A''\<rparr>],
          df2 = [\<lparr>chrom = ''1'', mut = ''T>C''\<rparr>, \<lparr>chrom = ''2'', mut = ''T>A''\<rparr>],
          a_dict = [(''T>A'', 1), (''T>C'', 1)], b_dict = [(''T>A'', 1), (''T>C'', 1)],
          unadj_p_vals = [(''T>C'', Fin 1), (''T>A'', Fin 1)], signif = [False, False],
          a_frac = [Fin (1 / 2), Fin (1 / 2)], b_frac = [Fin (1 / 2), Fin (1 / 2)],
          xticklabels = [''T>A'', ''T>C'']\<rparr>"
    by (rule call_keeps_frames_and_carries_no_state
        [THEN conjunct1, THEN mp, OF two_types_call, THEN conjunct2, THEN conjunct2])
next
  show "plot_mutation_spectrum chi2_contingency True
       (fresh_call [\<lparr>chrom = ''1'', mut = ''T>C''\<rparr>, \<lparr>chrom = ''2'', mut = ''T>A''\<rparr>]
                   [\<lparr>chrom = ''1'', mut = ''T>C''\<rparr>, \<lparr>chrom = ''2'', mut = ''T>A''\<rparr>])
     = plot_mutation_spectrum chi2_contingency True
       ((fresh_call [\<lparr>chrom = ''1'', mut = ''T>C''\<rparr>, \<lparr>chrom = ''2'', mut = ''T>A''\<rparr>]
                    [\<lparr>chrom = ''1'', mut = ''T>C''\<rparr>, \<lparr>chrom = ''2'', mut = ''T>A''\<rparr>])
         \<lparr>a_dict := [(''stale'', 7)], signif := [True]\<rparr>)"
    by (rule call_keeps_frames_and_carries_no_state [THEN conjunct2, THEN mp])
       (simp add: fresh_call_def)
qed

text \<open>
  C10. Every read \<^verbatim>\<open>b[change]\<close> of the significance loop is a \<^verbatim>\<open>defaultdict\<close> read,
  so the loop leaves \<open>a\<close> as it was and appends to \<open>b\<close>, in the order of \<open>a\<close>, a
  zero entry for every key of \<open>a\<close> that \<open>b\<close> did not hold. After a call that returns,
  the keys of the second dictionary include the keys of the first, the inserted
  entries are in the rebuilt second dictionary with count zero, and the second vector of
  fractions has one fraction per entry of that dictionary, the inserted ones being
  \<^verbatim>\<open>0 / total\<close>.
\<close>

theorem significance_loop_inserts_zero_entries:
  assumes "A = count_muts indels (df1 e)" and "B = count_muts indels (df2 e)"
    and "plot_mutation_spectrum chi2 indels e = Inr e'"
  shows "(distinct (map fst a) \<and> enrichment_loop chi2 (map fst a) a b [] = Inr (a', b', ps) \<longrightarrow>
            a' = a
            \<and> b' = b @ map (\<lambda>k. (k, 0)) (filter (\<lambda>k. k \<notin> fst ` set b) (map fst a))
            \<and> fst ` set a \<subseteq> fst ` set b')
       \<and> b_dict e' =
           sorted_items (B @ map (\<lambda>k. (k, 0)) (filter (\<lambda>k. k \<notin> fst ` set B) (map fst A)))
       \<and> fst ` set (a_dict e') \<subseteq> fst ` set (b_dict e')
       \<and> (\<forall>k \<in> fst ` set A - fst ` set B. (k, 0) \<in> set (b_dict e'))
       \<and> b_frac e' = map (\<lambda>v. np_true_divide v (sum_values B)) (map snd (b_dict e'))
       \<and> np_true_divide 0 (sum_values B) = (if sum_values B = 0 then NaN else Fin 0)"
proof -
  have touch_keys: "fst ` set d \<subseteq>
      fst ` set (c @ map (\<lambda>k. (k, 0)) (filter (\<lambda>k. k \<notin> fst ` set c) (map fst d)))"
    for c d :: counts
    by (auto simp add: image_Un image_image)
  have loop: "a' = a
      \<and> b' = b @ map (\<lambda>k. (k, 0)) (filter (\<lambda>k. k \<notin> fst ` set b) (map fst a))
      \<and> fst ` set a \<subseteq> fst ` set b'"
    if d: "distinct (map fst a)"
      and l: "enrichment_loop chi2 (map fst a) a b [] = Inr (a', b', ps)"
  proof -
    have "a' = a" "b' = touch b (map fst a)"
      using l enrichment_loop_eq [of "map fst a" a chi2 b "[]"]
      by (auto split: sum.splits)
    then show ?thesis using touch_eq [OF d, of b] touch_keys [of a b] by simp
  qed
  have dA: "distinct (map fst A)" unfolding assms(1) by (rule distinct_count_muts)
  have bd: "b_dict e' = sorted_items (touch B (map fst A))"
    and ad: "a_dict e' = sorted_items A"
    and bf: "b_frac e' = fractions (sorted_items (touch B (map fst A)))"
    using assms(3) unfolding plot_mutation_spectrum_eq assms(1,2)
    by (auto split: sum.splits if_splits)
  have t: "touch B (map fst A) = B @ map (\<lambda>k. (k, 0)) (filter (\<lambda>k. k \<notin> fst ` set B) (map fst A))"
    using dA by (rule touch_eq)
  have s: "sum_values (touch B (map fst A)) = sum_values B"
    unfolding t by (simp add: sum_values_def comp_def)
  have 2: "b_dict e' =
      sorted_items (B @ map (\<lambda>k. (k, 0)) (filter (\<lambda>k. k \<notin> fst ` set B) (map fst A)))"
    unfolding bd t ..
  have 3: "fst ` set (a_dict e') \<subseteq> fst ` set (b_dict e')"
    unfolding 2 ad set_sorted_items by (rule touch_keys)
  have 4: "\<forall>k \<in> fst ` set A - fst ` set B. (k, 0) \<in> set (b_dict e')"
    unfolding 2 set_sorted_items by auto
  have 5: "b_frac e' = map (\<lambda>v. np_true_divide v (sum_values B)) (map snd (b_dict e'))"
    unfolding bf bd fractions_def sum_values_sorted_items s ..
  show ?thesis using loop 2 3 4 5 by (simp add: np_true_divide_def)
qed

theorem significance_loop_inserts_zero_entries_witness:
  "\<exists>e'. plot_mutation_spectrum chi2_contingency True
          (fresh_call [\<lparr>chrom = ''1'', mut = ''T>C''\<rparr>, \<lparr>chrom = ''2'', mut = ''T>A''\<rparr>]
                      [\<lparr>chrom = ''1'', mut = ''T>C''\<rparr>, \<lparr>chrom = ''3'', mut = ''T>C''\<rparr>]) = Inr e'
        \<and> a_dict e' = [(''T>A'', 1), (''T>C'', 1)]
        \<and> b_dict e' = [(''T>A'', 0), (''T>C'', 2)]
        \<and> b_frac e' = [Fin 0, Fin 1]"
proof -
  let ?e = "fresh_call [\<lparr>chrom = ''1'', mut = ''T>C''\<rparr>, \<lparr>chrom = ''2'', mut = ''T>A''\<rparr>]
                      [\<lparr>chrom = ''1'', mut = ''T>C''\<rparr>, \<lparr>chrom = ''3'', mut = ''T>C''\<rparr>]"
  have cA: "count_muts True (df1 ?e) = [(''T>C'', 1), (''T>A'', 1)]"
    by (simp add: fresh_call_def count_muts_def dd_incr_def dd_getitem_def dd_setitem_def)
  have cB: "count_muts True (df2 ?e) = [(''T>C'', 2)]"
    by (simp add: fresh_call_def count_muts_def dd_incr_def dd_getitem_def dd_setitem_def)
  obtain p1 where p1: "chi2_contingency ((1, 1), (0, 2)) = Inr p1"
    by (simp add: chi2_contingency_def Let_def)
  obtain p2 where p2: "chi2_contingency ((1, 1), (2, 0)) = Inr p2"
    by (simp add: chi2_contingency_def Let_def)
  have "test_all chi2_contingency [(''T>C'', 1), (''T>A'', 1)] [(''T>C'', 2)] [''T>C'', ''T>A'']
      = Inr [(''T>C'', p1), (''T>A'', p2)]"
    by (simp add: table_of_def count_of_def sum_values_def p1 p2)
  moreover have "touch [(''T>C'', 2)] [''T>C'', ''T>A''] = [(''T>C'', 2), (''T>A'', 0)]"
    by (simp add: touch_def dd_getitem_def)
  ultimately obtain e' where e': "plot_mutation_spectrum chi2_contingency True ?e = Inr e'"
    and ad: "a_dict e' = sorted_items [(''T>C'', 1), (''T>A'', 1)]"
    unfolding plot_mutation_spectrum_eq cA cB by (simp add: broadcastable_def)
  have "b_dict e' = [(''T>A'', 0), (''T>C'', 2)] \<and> b_frac e' = [Fin 0, Fin 1]"
    using significance_loop_inserts_zero_entries [OF cA [symmetric] cB [symmetric] e']
    by (simp add: sorted_items_TC_TA sum_values_def np_true_divide_def)
  moreover have "a_dict e' = [(''T>A'', 1), (''T>C'', 1)]"
    unfolding ad by (rule sorted_items_TC_TA)
  ultimately show ?thesis using e' by blast
qed

section \<open>Claims about the normalisation\<close>

lemma fractions_nonzero_total:
  assumes "sum_values d \<noteq> 0"
  shows "fractions d = map Fin (map (\<lambda>v. real_of_int v / real_of_int (sum_values d)) (map snd d))"
  using assms by (simp add: fractions_def np_true_divide_def)

lemma sum_list_quotients:
  fixes t :: real
  assumes "t \<noteq> 0"
  shows "sum_list (map (\<lambda>v. real_of_int v / t) vs) = real_of_int (sum_list vs) / t"
  by (induction vs) (simp_all add: add_divide_distrib)

lemma sorted_keys_sort: "sorted (map fst (sort d))"
  for d :: counts
proof -
  have "sorted (sort d)" by simp
  then have "sorted_wrt (\<lambda>x y. fst x \<le> fst y) (sort d)"
    by (rule sorted_wrt_mono_rel [rotated]) (auto simp add: less_eq_prod_def)
  then show ?thesis by (simp add: sorted_map)
qed

lemma count_muts_sum_positive:
  assumes "count_muts indels df \<noteq> []"
  shows "0 < sum_values (count_muts indels df)"
proof -
  have "\<forall>(k, v) \<in> set (count_muts indels df). 1 \<le> v"
    using count_muts_positive by blast
  then have "int (length (count_muts indels df)) \<le> sum_values (count_muts indels df)"
    by (rule sum_values_ge_length)
  moreover have "0 < length (count_muts indels df)" using assms by simp
  ultimately show ?thesis by linarith
qed

text \<open>
  C4 (as the code has it). For every dictionary with a non-zero total, and so for every
  non-empty dictionary that the aggregation builds, the normalisation gives one finite
  fraction per entry, each the count divided by the total, and the fractions sum to 1
  (finite floats are represented by the exact quotients, so the sum is exactly 1). The
  items are put into the rebuilt dictionary in ascending order of their labels; the
  fractions are in the order in which that dictionary iterates, which under the
  interpreter the notebook declares (Python 2.7) is the order of the hash slots of the
  labels and need not be the lexicographic one: the dictionary of \<open>C>A\<close> and \<open>C>T\<close>
  iterates \<open>C>T, C>A\<close>. For \<open>A = {T>C: 10, T>A: 5}\<close> and \<open>B = {T>C: 5, T>A: 10}\<close> the
  order is \<open>T>A, T>C\<close> (here the slot order and the lexicographic order agree), the
  fractions of \<open>A\<close> are \<open>[1/3, 2/3]\<close> and those of \<open>B\<close> are \<open>[2/3, 1/3]\<close>.
\<close>

theorem normalised_fractions_sum_to_one:
  assumes "sum_values d \<noteq> 0"
  shows "(\<exists>fs. fractions (sorted_items d) = map Fin fs \<and> sum_list fs = 1
            \<and> fs = map (\<lambda>v. real_of_int v / real_of_int (sum_values d)) (map snd (sorted_items d)))
       \<and> set (sorted_items d) = set d \<and> length (sorted_items d) = length d
       \<and> sorted_items d = dict_items_in_slot_order (sort d) \<and> sorted (map fst (sort d))
       \<and> (count_muts indels df \<noteq> [] \<longrightarrow> sum_values (count_muts indels df) \<noteq> 0)
       \<and> map fst (sorted_items [(''T>C'', 10), (''T>A'', 5)]) = [''T>A'', ''T>C'']
       \<and> fractions (sorted_items [(''T>C'', 10), (''T>A'', 5)]) = [Fin (1 / 3), Fin (2 / 3)]
       \<and> map fst (sorted_items [(''T>C'', 5), (''T>A'', 10)]) = [''T>A'', ''T>C'']
       \<and> fractions (sorted_items [(''T>C'', 5), (''T>A'', 10)]) = [Fin (2 / 3), Fin (1 / 3)]
       \<and> map fst (sorted_items [(''C>A'', 1), (''C>T'', 1)]) = [''C>T'', ''C>A'']"
proof -
  let ?t = "real_of_int (sum_values d)"
  let ?fs = "map (\<lambda>v. real_of_int v / ?t) (map snd (sorted_items d))"
  have t: "sum_values (sorted_items d) = sum_values d" by (rule sum_values_sorted_items)
  have "fractions (sorted_items d) = map Fin ?fs"
    using fractions_nonzero_total [of "sorted_items d"] assms unfolding t by simp
  moreover have "sum_list ?fs = 1"
    using sum_list_quotients [of ?t "map snd (sorted_items d)"] assms t
    by (simp add: sum_values_def)
  ultimately have 1: "\<exists>fs. fractions (sorted_items d) = map Fin fs \<and> sum_list fs = 1
      \<and> fs = map (\<lambda>v. real_of_int v / real_of_int (sum_values d)) (map snd (sorted_items d))"
    by blast
  have 2: "count_muts indels df \<noteq> [] \<longrightarrow> sum_values (count_muts indels df) \<noteq> 0"
    using count_muts_sum_positive [of indels df] by auto
  have 4: "fractions [(''T>A'', 5), (''T>C'', 10)] = [Fin (1 / 3), Fin (2 / 3)]"
    "fractions [(''T>A'', 10), (''T>C'', 5)] = [Fin (2 / 3), Fin (1 / 3)]"
    by (simp_all add: fractions_def sum_values_def np_true_divide_def)
  have 5: "sorted_items d = dict_items_in_slot_order (sort d)" by (rule sorted_items_def)
  show ?thesis
    using 1 2 5 sorted_keys_sort [of d] set_sorted_items [of d] length_sorted_items [of d]
    unfolding sorted_items_TC_TA sorted_items_CA_CT 4 by simp
qed

theorem normalised_fractions_sum_to_one_witness:
  "sum_values [(''G>A'', 3), (''C>T'', 1)] \<noteq> 0
   \<and> (\<exists>fs. fractions (sorted_items [(''G>A'', 3), (''C>T'', 1)]) = map Fin fs \<and> sum_list fs = 1
          \<and> fs = [1 / 4, 3 / 4])
   \<and> sorted (map fst (sort [(''G>A'', 3 :: int), (''C>T'', 1)]))"
proof -
  have h: "sum_values [(''G>A'', 3), (''C>T'', 1)] \<noteq> 0" by (simp add: sum_values_def)
  show ?thesis
    using h normalised_fractions_sum_to_one [OF h] unfolding sorted_items_GA_CT
    by (simp add: sum_values_def)
qed

text \<open>
  C4 as the specification has it fails twice. The fractions of \<open>A\<close> in the order of the
  rebuilt dictionary are \<open>[1/3, 2/3]\<close>, not \<open>[0.667, 0.333]\<close>: \<open>T>A\<close> comes before
  \<open>T>C\<close>. And the order of the rebuilt dictionary is not always the lexicographic one:
  for the labels \<open>C>A\<close> and \<open>C>T\<close> it is \<open>C>T, C>A\<close>.
\<close>

theorem normalised_example_order_counterexample:
  "map fst (sorted_items [(''T>C'', 10), (''T>A'', 5)]) = [''T>A'', ''T>C'']
   \<and> fractions (sorted_items [(''T>C'', 10), (''T>A'', 5)]) = [Fin (1 / 3), Fin (2 / 3)]
   \<and> fractions (sorted_items [(''T>C'', 5), (''T>A'', 10)]) = [Fin (2 / 3), Fin (1 / 3)]
   \<and> \<not> (\<exists>x y. fractions (sorted_items [(''T>C'', 10), (''T>A'', 5)]) = [Fin x, Fin y]
              \<and> \<bar>x - 667 / 1000\<bar> \<le> 1 / 1000 \<and> \<bar>y - 333 / 1000\<bar> \<le> 1 / 1000)
   \<and> map fst (sorted_items [(''C>A'', 7), (''C>T'', 9)]) = [''C>T'', ''C>A'']
   \<and> \<not> sorted (map fst (sorted_items [(''C>A'', 7), (''C>T'', 9)]))"
proof -
  have 4: "fractions [(''T>A'', 5), (''T>C'', 10)] = [Fin (1 / 3), Fin (2 / 3)]"
    "fractions [(''T>A'', 10), (''T>C'', 5)] = [Fin (2 / 3), Fin (1 / 3)]"
    by (simp_all add: fractions_def sum_values_def np_true_divide_def)
  show ?thesis unfolding sorted_items_TC_TA sorted_items_CA_CT 4 by simp
qed

section \<open>Claims about empty sets\<close>



lemma remainder_nonneg:
  assumes "distinct (map fst d)" "\<forall>(k, v) \<in> set d. 1 \<le> v" "c \<in> fst ` set d"
  shows "0 \<le> sum_values d - count_of d c" "1 \<le> count_of d c"
proof -
  from assms(3) obtain v where m: "(c, v) \<in> set d" by auto
  have cv: "count_of d c = v" using assms(1) m by (rule count_of_member)
  have "\<forall>(k, v) \<in> set (remove1 (c, v) d). 1 \<le> v"
    using assms(2) by (auto dest: notin_set_remove1)
  then have "int (length (remove1 (c, v) d)) \<le> sum_values (remove1 (c, v) d)"
    by (rule sum_values_ge_length)
  then have "0 \<le> sum_values (remove1 (c, v) d)" by linarith
  then show "0 \<le> sum_values d - count_of d c" using sum_values_remove1 [OF m] cv by simp
  show "1 \<le> count_of d c" using assms(2) m cv by auto
qed









section \<open>Claims about identical sets and the multiple-testing step\<close>

lemma test_all_identical:
  assumes "length (count_muts indels df) \<noteq> 1"
  shows "test_all chi2_contingency (count_muts indels df) (count_muts indels df)
           (map fst (count_muts indels df))
         = Inr (map (\<lambda>c. (c, Fin 1)) (map fst (count_muts indels df)))"
proof -
  let ?A = "count_muts indels df"
  have pos: "\<forall>(k, v) \<in> set ?A. 1 \<le> v" using count_muts_positive by blast
  have "chi2_contingency (table_of ?A ?A c) = Inr (Fin 1)" if c: "c \<in> fst ` set ?A" for c
  proof -
    have "?A \<noteq> []" using c by auto
    then have "2 \<le> length ?A" using assms by (cases ?A) (auto simp add: Suc_le_eq)
    then have "1 \<le> sum_values ?A - count_of ?A c"
      using remainder_positive [OF distinct_count_muts pos _ c] by simp
    moreover have "1 \<le> count_of ?A c"
      using remainder_nonneg(2) [OF distinct_count_muts pos c] .
    ultimately show ?thesis
      unfolding table_of_def by (intro chi2_contingency_equal_rows) simp_all
  qed
  then show ?thesis
    unfolding test_all_Inr_iff by (auto simp add: comp_def)
qed

text \<open>
  C6 (as the code has it). When the two frames are identical and the kept rows do not
  all carry one and the same mutation type, the call returns, every tested category
  has the p-value 1, and no category is flagged.
\<close>

theorem identical_sets_no_difference:
  assumes "df2 e = df1 e"
    and "card (mut ` set (autosome_indel_filter indels (df1 e))) \<noteq> 1"
  shows "\<exists>e'. plot_mutation_spectrum chi2_contingency indels e = Inr e'
           \<and> unadj_p_vals e' = map (\<lambda>c. (c, Fin 1)) (map fst (count_muts indels (df1 e)))
           \<and> list_all (\<lambda>s. \<not> s) (signif e')
           \<and> length (signif e') = length (unadj_p_vals e')"
proof -
  let ?A = "count_muts indels (df1 e)"
  let ?ps = "map (\<lambda>c. (c, Fin 1)) (map fst ?A)"
  have l: "length ?A \<noteq> 1" using assms(2) by (simp add: length_count_muts)
  have t: "test_all chi2_contingency ?A ?A (map fst ?A) = Inr ?ps"
    using l by (rule test_all_identical)
  have "\<forall>p \<in> set (map snd ?ps). p = Fin 1" by auto
  then have f: "\<forall>x \<in> set (fdrcorrection (map snd ?ps) fdrcorrection_default_alpha). \<not> x"
    by (rule fdrcorrection_all_ones) (simp_all add: fdrcorrection_default_alpha_def)
  have "touch ?A (map fst ?A) = ?A" by (rule touch_present) simp
  then have b: "broadcastable (length ?A) (length (touch ?A (map fst ?A)))"
    by (simp add: broadcastable_def)
  show ?thesis
    unfolding plot_mutation_spectrum_eq assms(1) t
    using f b by (simp add: list_all_iff length_fdrcorrection)
qed

theorem identical_sets_no_difference_witness:
  "\<exists>e'. plot_mutation_spectrum chi2_contingency True
          (fresh_call [\<lparr>chrom = ''1'', mut = ''T>C''\<rparr>, \<lparr>chrom = ''2'', mut = ''T>A''\<rparr>]
                      [\<lparr>chrom = ''1'', mut = ''T>C''\<rparr>, \<lparr>chrom = ''2'', mut = ''T>A''\<rparr>]) = Inr e'
        \<and> unadj_p_vals e' = [(''T>C'', Fin 1), (''T>A'', Fin 1)]
        \<and> list_all (\<lambda>s. \<not> s) (signif e')
        \<and> length (signif e') = length (unadj_p_vals e')"
proof -
  let ?e = "fresh_call [\<lparr>chrom = ''1'', mut = ''T>C''\<rparr>, \<lparr>chrom = ''2'', mut = ''T>A''\<rparr>]
                      [\<lparr>chrom = ''1'', mut = ''T>C''\<rparr>, \<lparr>chrom = ''2'', mut = ''T>A''\<rparr>]"
  have h1: "df2 ?e = df1 ?e" by (simp add: fresh_call_def)
  have h2: "card (mut ` set (autosome_indel_filter True (df1 ?e))) \<noteq> 1"
    by (simp add: fresh_call_def autosome_indel_filter_def keep_row_def)
  have c: "count_muts True (df1 ?e) = [(''T>C'', 1), (''T>A'', 1)]"
    by (simp add: fresh_call_def count_muts_def dd_incr_def dd_getitem_def dd_setitem_def)
  show ?thesis
    using identical_sets_no_difference [OF h1 h2] unfolding c by simp
qed

text \<open>
  C6 as the specification has it fails for identical frames whose kept rows all carry
  one mutation type: the only table has a zero column, the chi-square call raises, and
  the call has no p-value at all.
\<close>

theorem identical_single_type_counterexample:
  "plot_mutation_spectrum chi2_contingency False
     (fresh_call [\<lparr>chrom = ''1'', mut = ''T>C''\<rparr>, \<lparr>chrom = ''2'', mut = ''T>C''\<rparr>]
                 [\<lparr>chrom = ''1'', mut = ''T>C''\<rparr>, \<lparr>chrom = ''2'', mut = ''T>C''\<rparr>])
   = Inl (ValueError Zero_expected_frequency)"
proof -
  have c: "count_muts False [\<lparr>chrom = ''1'', mut = ''T>C''\<rparr>, \<lparr>chrom = ''2'', mut = ''T>C''\<rparr>]
      = [(''T>C'', 2)]"
    by (simp add: count_muts_def dd_incr_def dd_getitem_def dd_setitem_def)
  have t: "table_of [(''T>C'', 2)] [(''T>C'', 2)] ''T>C'' = ((0, 2), (0, 2))"
    by (simp add: table_of_def count_of_def sum_values_def)
  have "chi2_contingency ((0, 2), (0, 2)) =
      Inl (ValueError Zero_expected_frequency)"
    by (rule chi2_contingency_zero_column) simp_all
  then show ?thesis
    unfolding plot_mutation_spectrum_eq by (simp add: fresh_call_def c t)
qed

text \<open>
  C7 (as the code has it). The flags of a call are the rejections of the
  Benjamini-Hochberg procedure on the whole vector of unadjusted p-values, in the order
  in which the loop computed them, one flag per tested category, at the level 0.05.
  The level is the keyword default of the library function: the function passes no
  level and has no argument or constant of its own for it. On the reference vector
  \<open>[0.001, 0.2, 0.5, 0.8]\<close> at the level 0.05 the procedure rejects only the smallest
  p-value.
\<close>

theorem multiple_testing_at_library_default_level:
  "(plot_mutation_spectrum chi2 indels e = Inr e' \<longrightarrow>
      signif e' = fdrcorrection (map snd (unadj_p_vals e')) (5 / 100)
      \<and> length (signif e') = length (unadj_p_vals e'))
   \<and> fdrcorrection_default_alpha = 5 / 100
   \<and> fdrcorrection [Fin (1 / 1000), Fin (2 / 10), Fin (5 / 10), Fin (8 / 10)] (5 / 100)
       = [True, False, False, False]"
proof -
  have "signif e' = fdrcorrection (map snd (unadj_p_vals e')) (5 / 100)
      \<and> length (signif e') = length (unadj_p_vals e')"
    if "plot_mutation_spectrum chi2 indels e = Inr e'"
    using that unfolding plot_mutation_spectrum_eq
    by (auto simp add: fdrcorrection_default_alpha_def length_fdrcorrection
        split: sum.splits if_splits)
  then show ?thesis
    using fdr_reference by (simp add: fdrcorrection_default_alpha_def length_fdrcorrection)
qed

theorem multiple_testing_at_library_default_level_witness:
  "signif \<lparr>df1 = [\<lparr>chrom = ''1'', mut = ''T>C''\<rparr>, \<lparr>chrom = ''2'', mut = ''T>A''\<rparr>],
          df2 = [\<lparr>chrom = ''1'', mut = ''T>C''\<rparr>, \<lparr>chrom = ''2'', mut = ''T>A''\<rparr>],
          a_dict = [(''T>A'', 1), (''T>C'', 1)], b_dict = [(''T>A'', 1), (''T>C'', 1)],
          unadj_p_vals = [(''T>C'', Fin 1), (''T>A'', Fin 1)], signif = [False, False],
          a_frac = [Fin (1 / 2), Fin (1 / 2)], b_frac = [Fin (1 / 2), Fin (1 / 2)],
          xticklabels = [''T>A'', ''T>C'']\<rparr>
   = fdrcorrection (map snd (unadj_p_vals
        \<lparr>df1 = [\<lparr>chrom = ''1'', mut = ''T>C''\<rparr>, \<lparr>chrom = ''2'', mut = ''T>A''\<rparr>],
          df2 = [\<lparr>chrom = ''1'', mut = ''T>C''\<rparr>, \<lparr>chrom = ''2'', mut = ''T>A''\<rparr>],
          a_dict = [(''T>A'', 1), (''T>C'', 1)], b_dict = [(''T>A'', 1), (''T>C'', 1)],
          unadj_p_vals = [(''T>C'', Fin 1), (''T>A'', Fin 1)], signif = [False, False],
          a_frac = [Fin (1 / 2), Fin (1 / 2)], b_frac = [Fin (1 / 2), Fin (1 / 2)],
          xticklabels = [''T>A'', ''T>C'']\<rparr>)) (5 / 100)"
  by (rule multiple_testing_at_library_default_level
      [THEN conjunct1, THEN mp, OF two_types_call, THEN conjunct1])

text \<open>
  C7 as the specification has it fails in that the level is no constant or argument of
  the function: on two identical frames with two mutation types both p-values are 1,
  the procedure at the level 1 would reject both, and the call, which takes the frames
  and the indel policy only, rejects none.
\<close>

theorem level_is_not_an_argument_counterexample:
  "plot_mutation_spectrum chi2_contingency True
     (fresh_call [\<lparr>chrom = ''1'', mut = ''T>C''\<rparr>, \<lparr>chrom = ''2'', mut = ''T>A''\<rparr>]
                 [\<lparr>chrom = ''1'', mut = ''T>C''\<rparr>, \<lparr>chrom = ''2'', mut = ''T>A''\<rparr>])
   = Inr \<lparr>df1 = [\<lparr>chrom = ''1'', mut = ''T>C''\<rparr>, \<lparr>chrom = ''2'', mut = ''T>A''\<rparr>],
          df2 = [\<lparr>chrom = ''1'', mut = ''T>C''\<rparr>, \<lparr>chrom = ''2'', mut = ''T>A''\<rparr>],
          a_dict = [(''T>A'', 1), (''T>C'', 1)], b_dict = [(''T>A'', 1), (''T>C'', 1)],
          unadj_p_vals = [(''T>C'', Fin 1), (''T>A'', Fin 1)], signif = [False, False],
          a_frac = [Fin (1 / 2), Fin (1 / 2)], b_frac = [Fin (1 / 2), Fin (1 / 2)],
          xticklabels = [''T>A'', ''T>C'']\<rparr>
   \<and> fdrcorrection [Fin 1, Fin 1] 1 = [True, True]
   \<and> fdrcorrection [Fin 1, Fin 1] (5 / 100) = [False, False]"
proof -
  have "fdrcorrection [Fin 1, Fin 1] 1 = [True, True]" by code_simp
  moreover have "fdrcorrection [Fin 1, Fin 1] (5 / 100) = [False, False]" by code_simp
  ultimately show ?thesis using two_types_call by simp
qed

section \<open>The alignment of the two bar series\<close>

text \<open>
  C8 fails on the code. Both dictionaries are rebuilt from their items sorted by label,
  but the bars are paired by position, and the second dictionary may hold a label that
  the first does not.
  For the frames \<open>[(1, T>C)]\<close> and \<open>[(1, T>A), (2, T>C)]\<close> the first bar of the first
  series is the fraction of \<open>T>C\<close> and the first bar of the second series is the
  fraction of \<open>T>A\<close>, under the one tick label \<open>T>C\<close>.
\<close>

theorem bars_misaligned_when_second_set_has_extra_type:
  "\<exists>e'. plot_mutation_spectrum chi2_contingency False
          (fresh_call [\<lparr>chrom = ''1'', mut = ''T>C''\<rparr>]
                      [\<lparr>chrom = ''1'', mut = ''T>A''\<rparr>, \<lparr>chrom = ''2'', mut = ''T>C''\<rparr>]) = Inr e'
        \<and> a_dict e' = [(''T>C'', 1)] \<and> b_dict e' = [(''T>A'', 1), (''T>C'', 1)]
        \<and> a_frac e' = [Fin 1] \<and> b_frac e' = [Fin (1 / 2), Fin (1 / 2)]
        \<and> xticklabels e' = [''T>C'']
        \<and> fst (a_dict e' ! 0) \<noteq> fst (b_dict e' ! 0)"
proof -
  have cA: "count_muts False [\<lparr>chrom = ''1'', mut = ''T>C''\<rparr>] = [(''T>C'', 1)]"
    by (simp add: count_muts_def dd_incr_def dd_getitem_def dd_setitem_def)
  have cB: "count_muts False [\<lparr>chrom = ''1'', mut = ''T>A''\<rparr>, \<lparr>chrom = ''2'', mut = ''T>C''\<rparr>]
      = [(''T>A'', 1), (''T>C'', 1)]"
    by (simp add: count_muts_def dd_incr_def dd_getitem_def dd_setitem_def)
  obtain p where p: "chi2_contingency ((0, 1), (1, 1)) = Inr p"
    by (simp add: chi2_contingency_def Let_def)
  have t: "test_all chi2_contingency [(''T>C'', 1)] [(''T>A'', 1), (''T>C'', 1)] [''T>C'']
      = Inr [(''T>C'', p)]"
    by (simp add: table_of_def count_of_def sum_values_def p)
  have tb: "touch [(''T>A'', 1), (''T>C'', 1)] [''T>C''] = [(''T>A'', 1), (''T>C'', 1)]"
    by (simp add: touch_def dd_getitem_def)
  have s: "sorted_items [(''T>C'', 1)] = [(''T>C'', 1)]"
    "sorted_items [(''T>A'', 1), (''T>C'', 1)] = [(''T>A'', 1), (''T>C'', 1)]"
    by (simp_all add: sorted_items_single sorted_items_TA_TC)
  have fr: "fractions [(''T>C'', 1)] = [Fin 1]"
    "fractions [(''T>A'', 1), (''T>C'', 1)] = [Fin (1 / 2), Fin (1 / 2)]"
    by (simp_all add: fractions_def sum_values_def np_true_divide_def)
  show ?thesis
    unfolding plot_mutation_spectrum_eq
    by (simp add: fresh_call_def cA cB t tb s fr broadcastable_def del: test_all.simps)
qed

end
